theory Spec2Isabelle
  imports Complex_Main "HOL-Library.AList"
begin

section \<open>The n-gram similarity index of python-ngram\<close>

text \<open>
  A shallow embedding of \<^verbatim>\<open>src/ngram_abstract.py\<close> (class NGramAbstract) and
  \<^verbatim>\<open>src/ngram.py\<close> (class NGram, the in-memory index).

  Modelling decisions.
  \<^item> The object \<^verbatim>\<open>self\<close> is one record holding the configuration
    (\<^verbatim>\<open>threshold, warp, N, _pad_len, _pad_char, _padding, _key\<close>) and the three
    tables: the base \<^verbatim>\<open>set\<close> (\<open>members\<close>), \<^verbatim>\<open>self.length\<close>
    (\<open>length_tbl\<close>) and \<^verbatim>\<open>self._grams\<close> (\<open>grams\<close>). Names that start with
    an underscore lose it; \<^verbatim>\<open>_split\<close> is \<open>split_raw\<close>, \<^verbatim>\<open>split\<close> is
    \<open>split_padded\<close>, \<^verbatim>\<open>_similarity\<close> is \<open>similarity\<close>, \<^verbatim>\<open>__init__\<close> is
    \<open>init\<close>.
  \<^item> Items are strings, the type that \<^verbatim>\<open>key=None\<close> requires; a key function maps
    an item to its key string.
  \<^item> A dictionary that the code only reads and writes by key is a map; a dictionary
    that the code iterates (the per-n-gram sub-dictionaries and the result of
    \<^verbatim>\<open>items_sharing_ngrams\<close>) is an association list with distinct keys in
    insertion order.
  \<^item> Python integers are \<open>int\<close>. Python floats are modelled by the reals: rounding
    and overflow are not modelled, and the theorems about similarity values are
    stated where this makes no difference (see the subsection on similarity).
  \<^item> Every exception of the source is a value of type \<open>error\<close>; a method that can
    raise after it has changed the object returns the changed object together with
    the error.
\<close>

subsection \<open>Values and errors\<close>

datatype pyval = PyNone | PyInt int | PyFloat real | PyStr string

datatype error = ValueError string | TypeError | KeyError | IndexError | ZeroDivisionError

text \<open>\<^verbatim>\<open>"text" + v\<close>: string concatenation accepts a string only.\<close>

definition str_add :: "string \<Rightarrow> pyval \<Rightarrow> error + string" where
  "str_add s v = (case v of PyStr t \<Rightarrow> Inr (s @ t) | _ \<Rightarrow> Inl TypeError)"

text \<open>\<^verbatim>\<open>raise ValueError("text" + v)\<close>: the message is built first.\<close>

definition raise_ValueError :: "string \<Rightarrow> pyval \<Rightarrow> error + 'a" where
  "raise_ValueError s v = (case str_add s v of Inl e \<Rightarrow> Inl e | Inr m \<Rightarrow> Inl (ValueError m))"

text \<open>\<^verbatim>\<open>range(n)\<close> and the slice \<^verbatim>\<open>s[i:j]\<close>, negative bounds counting from the end.\<close>

definition py_range :: "int \<Rightarrow> int list" where
  "py_range n = map int [0..<nat n]"

definition slice_bound :: "int \<Rightarrow> int \<Rightarrow> int" where
  "slice_bound len i = (if i < 0 then max 0 (i + len) else min i len)"

definition py_slice :: "'a list \<Rightarrow> int \<Rightarrow> int \<Rightarrow> 'a list" where
  "py_slice s i j =
     (let lo = slice_bound (int (length s)) i; hi = slice_bound (int (length s)) j
      in take (nat (hi - lo)) (drop (nat lo) s))"

subsection \<open>The object\<close>

type_synonym item = string

record ngram =
  threshold :: real
  warp :: real
  N :: int
  pad_len :: int
  pad_char :: string
  padding :: string
  key_fn :: "(item \<Rightarrow> string) option"
  members :: "item set"
  length_tbl :: "item \<rightharpoonup> int"
  grams :: "string \<rightharpoonup> (item \<times> int) list"

subsection \<open>Tokenizer (NGramAbstract)\<close>

definition key :: "ngram \<Rightarrow> item \<Rightarrow> string" where
  "key self item = (case key_fn self of Some f \<Rightarrow> f item | None \<Rightarrow> item)"

definition pad :: "ngram \<Rightarrow> string \<Rightarrow> string" where
  "pad self string = padding self @ string @ padding self"

definition split_raw :: "ngram \<Rightarrow> string \<Rightarrow> string list" where
  "split_raw self string =
     map (\<lambda>i. py_slice string i (i + N self)) (py_range (int (length string) - N self + 1))"

definition split_padded :: "ngram \<Rightarrow> string \<Rightarrow> string list" where
  "split_padded self string = split_raw self (pad self string)"

definition splititem :: "ngram \<Rightarrow> item \<Rightarrow> string list" where
  "splititem self item = split_padded self (key self item)"

subsection \<open>The configuration that the constructor accepts\<close>

definition valid_config :: "ngram \<Rightarrow> bool" where
  "valid_config self \<longleftrightarrow>
     0 \<le> threshold self \<and> threshold self \<le> 1 \<and>
     1 \<le> warp self \<and> warp self \<le> 3 \<and>
     1 \<le> N self \<and> 0 \<le> pad_len self \<and> pad_len self < N self \<and>
     length (pad_char self) = 1 \<and>
     padding self = concat (replicate (nat (pad_len self)) (pad_char self))"

subsection \<open>Index maintenance (NGram)\<close>

text \<open>
  One pass of the loop body of \<^verbatim>\<open>add\<close>:
  \<^verbatim>\<open>self._grams.setdefault(ngram, {}).setdefault(item, 0)\<close> followed by
  \<^verbatim>\<open>self._grams[ngram][item] += 1\<close>.
\<close>

definition add_ngram :: "item \<Rightarrow> string \<Rightarrow> (string \<rightharpoonup> (item \<times> int) list) \<Rightarrow> (string \<rightharpoonup> (item \<times> int) list)" where
  "add_ngram item ngram g =
     (let sub = (case g ngram of None \<Rightarrow> [] | Some d \<Rightarrow> d);
          sub' = (case map_of sub item of None \<Rightarrow> AList.update item 0 sub | Some _ \<Rightarrow> sub);
          c = (case map_of sub' item of None \<Rightarrow> 0 | Some c \<Rightarrow> c)
      in g(ngram \<mapsto> AList.update item (c + 1) sub'))"

definition add :: "ngram \<Rightarrow> item \<Rightarrow> ngram" where
  "add self item =
     (if item \<notin> members self then
        (let padded_item = pad self (key self item)
         in self\<lparr>members := insert item (members self),
                 length_tbl := (length_tbl self)(item \<mapsto> int (length padded_item)),
                 grams := fold (add_ngram item) (split_raw self padded_item) (grams self)\<rparr>)
      else self)"

definition update :: "ngram \<Rightarrow> item list \<Rightarrow> ngram" where
  "update self items = fold (\<lambda>item s. add s item) items self"

text \<open>
  The loop of \<^verbatim>\<open>remove\<close>: \<^verbatim>\<open>del self._grams[ngram][item]\<close> raises KeyError when
  the n-gram or the item is missing, and the deletions made so far stay.
\<close>

fun remove_loop :: "item \<Rightarrow> string list \<Rightarrow> (string \<rightharpoonup> (item \<times> int) list) \<Rightarrow>
    (string \<rightharpoonup> (item \<times> int) list) \<times> error option" where
  "remove_loop item [] g = (g, None)"
| "remove_loop item (ngram # rest) g =
     (case g ngram of
        None \<Rightarrow> (g, Some KeyError)
      | Some sub \<Rightarrow>
          (case map_of sub item of
             None \<Rightarrow> (g, Some KeyError)
           | Some _ \<Rightarrow> remove_loop item rest (g(ngram \<mapsto> AList.delete item sub))))"

definition remove :: "ngram \<Rightarrow> item \<Rightarrow> ngram \<times> error option" where
  "remove self item =
     (if item \<in> members self then
        (let self1 = self\<lparr>members := members self - {item}\<rparr>
         in case length_tbl self1 item of
              None \<Rightarrow> (self1, Some KeyError)
            | Some _ \<Rightarrow>
                (let self2 = self1\<lparr>length_tbl := (length_tbl self1)(item := None)\<rparr>;
                     (g, e) = remove_loop item (splititem self2 item) (grams self2)
                 in (self2\<lparr>grams := g\<rparr>, e)))
      else (self, None))"

definition discard :: "ngram \<Rightarrow> item \<Rightarrow> ngram \<times> error option" where
  "discard self item = (if item \<in> members self then remove self item else (self, None))"

subsection \<open>Shared n-grams\<close>

text \<open>
  The body of the inner loop of \<^verbatim>\<open>items_sharing_ngrams\<close> for one pair
  \<open>(match, count)\<close> of \<^verbatim>\<open>self._grams[ngram]\<close>. The state is \<open>(shared, remaining)\<close>.
\<close>

definition credit :: "string \<Rightarrow> item \<times> int \<Rightarrow>
    (item \<times> int) list \<times> (string \<rightharpoonup> (item \<rightharpoonup> int)) \<Rightarrow>
    (item \<times> int) list \<times> (string \<rightharpoonup> (item \<rightharpoonup> int))" where
  "credit ngram mc st =
     (case mc of (match, count) \<Rightarrow> case st of (shared, remaining) \<Rightarrow>
       (let rsub = (case remaining ngram of None \<Rightarrow> Map.empty | Some d \<Rightarrow> d);
            rsub' = (case rsub match of None \<Rightarrow> rsub(match \<mapsto> count) | Some _ \<Rightarrow> rsub);
            r = (case rsub' match of None \<Rightarrow> count | Some r \<Rightarrow> r)
        in if r > 0 then
             (AList.update match ((case map_of shared match of None \<Rightarrow> 0 | Some c \<Rightarrow> c) + 1) shared,
              remaining(ngram \<mapsto> rsub'(match \<mapsto> r - 1)))
           else (shared, remaining(ngram \<mapsto> rsub'))))"

text \<open>The body of the outer loop: a missing n-gram raises KeyError, which is passed over.\<close>

definition credit_ngram :: "ngram \<Rightarrow> string \<Rightarrow>
    (item \<times> int) list \<times> (string \<rightharpoonup> (item \<rightharpoonup> int)) \<Rightarrow>
    (item \<times> int) list \<times> (string \<rightharpoonup> (item \<rightharpoonup> int))" where
  "credit_ngram self ngram st =
     (case grams self ngram of None \<Rightarrow> st | Some sub \<Rightarrow> fold (credit ngram) sub st)"

definition items_sharing_ngrams :: "ngram \<Rightarrow> string \<Rightarrow> (item \<times> int) list" where
  "items_sharing_ngrams self query =
     fst (fold (credit_ngram self) (split_padded self query) ([], Map.empty))"

definition get_item_length :: "ngram \<Rightarrow> item \<Rightarrow> error + int" where
  "get_item_length self match =
     (case length_tbl self match of None \<Rightarrow> Inl KeyError | Some l \<Rightarrow> Inr l)"

subsection \<open>Similarity and search (NGramAbstract)\<close>

text \<open>
  Float arithmetic is modelled by exact real arithmetic: \<open>py_pow\<close>, \<open>py_div\<close> and
  \<open>similarity\<close> return the value that the code returns whenever the operands and
  the exact result of every operation are doubles, and the exact value that the
  code rounds otherwise. OverflowError (a count or a power beyond the range of a
  double) is not modelled. The theorems about the value of \<open>similarity\<close> are
  therefore stated only for inputs on which the code's operations are exact, or
  for results that rounding cannot change (an exception raised, the value 1 of a
  quotient of equal numbers, the equality of two runs of the same computation).

  \<^verbatim>\<open>x ** y\<close> on floats (Python 2): a zero base with a negative exponent raises
  ZeroDivisionError, a negative base with a fractional exponent raises ValueError.
\<close>

definition py_pow :: "real \<Rightarrow> real \<Rightarrow> error + real" where
  "py_pow x y =
     (if y = 0 then Inr 1
      else if x = 0 then (if y < 0 then Inl ZeroDivisionError else Inr 0)
      else if x < 0 then
        (if y \<in> \<int> then Inr (x powi \<lfloor>y\<rfloor>)
         else Inl (ValueError ''negative number cannot be raised to a fractional power''))
      else Inr (x powr y))"

definition py_div :: "real \<Rightarrow> real \<Rightarrow> error + real" where
  "py_div x y = (if y = 0 then Inl ZeroDivisionError else Inr (x / y))"

definition similarity :: "int \<Rightarrow> int \<Rightarrow> real \<Rightarrow> error + real" where
  "similarity samegrams allgrams wrp =
     (if \<bar>wrp - 1\<bar> < 1 / 10 ^ 9 then py_div (real_of_int samegrams) (real_of_int allgrams)
      else
        (let diffgrams = real_of_int (allgrams - samegrams)
         in case py_pow (real_of_int allgrams) wrp of
              Inl e \<Rightarrow> Inl e
            | Inr aw \<Rightarrow>
                (case py_pow diffgrams wrp of
                   Inl e \<Rightarrow> Inl e
                 | Inr dw \<Rightarrow>
                     (case py_pow (real_of_int allgrams) wrp of
                        Inl e \<Rightarrow> Inl e
                      | Inr aw' \<Rightarrow> py_div (aw - dw) aw'))))"

definition allgrams_of :: "ngram \<Rightarrow> string \<Rightarrow> int \<Rightarrow> int \<Rightarrow> int" where
  "allgrams_of self query len samegrams =
     int (length (pad self query)) + len - 2 * N self - samegrams + 2"

text \<open>The loop of \<^verbatim>\<open>search\<close> over \<^verbatim>\<open>items_sharing_ngrams(query).iteritems()\<close>.\<close>

fun search_loop :: "ngram \<Rightarrow> string \<Rightarrow> real \<Rightarrow> (item \<times> int) list \<Rightarrow> (item \<times> real) list \<Rightarrow>
    error + (item \<times> real) list" where
  "search_loop self query thr [] results = Inr results"
| "search_loop self query thr ((match, samegrams) # rest) results =
     (case get_item_length self match of
        Inl e \<Rightarrow> Inl e
      | Inr len \<Rightarrow>
          (case similarity samegrams (allgrams_of self query len samegrams) (warp self) of
             Inl e \<Rightarrow> Inl e
           | Inr sim \<Rightarrow>
               search_loop self query thr rest
                 (if sim \<ge> thr then results @ [(match, sim)] else results)))"

text \<open>
  \<^verbatim>\<open>results.sort(key=lambda x:x[1], reverse=True)\<close> is a stable sort by decreasing
  similarity: the stable sort by increasing negated similarity.
\<close>

definition search :: "ngram \<Rightarrow> string \<Rightarrow> real option \<Rightarrow> error + (item \<times> real) list" where
  "search self query thr_arg =
     (let thr = (case thr_arg of Some t \<Rightarrow> t | None \<Rightarrow> threshold self)
      in case search_loop self query thr (items_sharing_ngrams self query) [] of
           Inl e \<Rightarrow> Inl e
         | Inr results \<Rightarrow> Inr (sort_key (\<lambda>x. - snd x) results))"

subsection \<open>Construction and one-shot comparison\<close>

datatype keyarg = KeyNone | KeyFun "item \<Rightarrow> string" | KeyOther pyval

text \<open>
  \<^verbatim>\<open>__init__\<close> of NGram and of NGramAbstract. \<open>KeyOther v\<close> is a key argument that is
  neither None nor callable.
\<close>

definition init :: "item list \<Rightarrow> real \<Rightarrow> real \<Rightarrow> keyarg \<Rightarrow> int \<Rightarrow> int option \<Rightarrow> pyval \<Rightarrow>
    error + ngram" where
  "init items thr wrp ky n pad_len_arg pad_char_arg =
     (if \<not> (0 \<le> thr \<and> thr \<le> 1) then
        raise_ValueError ''Threshold outside 0.0 to 1.0 range: '' (PyFloat thr)
      else if \<not> (1 \<le> wrp \<and> wrp \<le> 3) then
        raise_ValueError ''Warp outside 1.0 to 3.0 range: '' (PyFloat wrp)
      else if \<not> n \<ge> 1 then
        raise_ValueError ''Require N >= 1, not: '' (PyInt n)
      else
        (let pl = (case pad_len_arg of None \<Rightarrow> n - 1 | Some p \<Rightarrow> p)
         in if \<not> (0 \<le> pl \<and> pl < n) then
              raise_ValueError ''pad_len out of range: '' (PyInt pl)
            else
              (case pad_char_arg of
                 PyStr [c] \<Rightarrow>
                   (case ky of
                      KeyOther v \<Rightarrow> raise_ValueError ''key is not a function: '' v
                    | _ \<Rightarrow>
                        Inr (update
                          \<lparr>threshold = thr, warp = wrp, N = n, pad_len = pl, pad_char = [c],
                           padding = concat (replicate (nat pl) [c]),
                           key_fn = (case ky of KeyFun f \<Rightarrow> Some f | _ \<Rightarrow> None),
                           members = {}, length_tbl = Map.empty, grams = Map.empty\<rparr>
                          items))
               | _ \<Rightarrow> raise_ValueError ''pad_char not single-character string: '' pad_char_arg)))"

text \<open>
  \<^verbatim>\<open>NGram.compare(s1, s2, **kwargs)\<close>; a missing string is \<open>None\<close>. An empty result
  list makes \<^verbatim>\<open>[0]\<close> raise IndexError, which is turned into \<open>0.0\<close>.
\<close>

definition compare :: "string option \<Rightarrow> string option \<Rightarrow>
    real \<Rightarrow> real \<Rightarrow> keyarg \<Rightarrow> int \<Rightarrow> int option \<Rightarrow> pyval \<Rightarrow> error + real" where
  "compare s1 s2 thr wrp ky n pad_len_arg pad_char_arg =
     (case (s1, s2) of
        (Some a, Some b) \<Rightarrow>
          (case init [a] thr wrp ky n pad_len_arg pad_char_arg of
             Inl e \<Rightarrow> Inl e
           | Inr self \<Rightarrow>
               (case search self b None of
                  Inl e \<Rightarrow> Inl e
                | Inr [] \<Rightarrow> Inr 0
                | Inr ((m, sim) # _) \<Rightarrow> Inr sim))
      | _ \<Rightarrow> if s1 = s2 then Inr 1 else Inr 0)"

subsection \<open>Example objects\<close>

text \<open>\<^verbatim>\<open>NGram()\<close>: the empty index with the default arguments.\<close>

definition default_ngram :: ngram where
  "default_ngram =
     \<lparr>threshold = 0, warp = 1, N = 3, pad_len = 2, pad_char = ''$'', padding = ''$$'',
      key_fn = None, members = {}, length_tbl = Map.empty, grams = Map.empty\<rparr>"

subsection \<open>Specification vocabulary\<close>

text \<open>The count recorded in the inverted index for an item under an n-gram.\<close>

definition entry :: "ngram \<Rightarrow> string \<Rightarrow> item \<Rightarrow> int option" where
  "entry self g m = (case grams self g of None \<Rightarrow> None | Some sub \<Rightarrow> map_of sub m)"

definition recorded :: "ngram \<Rightarrow> string \<Rightarrow> item \<Rightarrow> int" where
  "recorded self g m = (case entry self g m of None \<Rightarrow> 0 | Some c \<Rightarrow> c)"

text \<open>
  The sum, over the distinct n-grams of the query, of the minimum of the number of
  occurrences in the query and the number recorded for the item.
\<close>

definition capped_total :: "string list \<Rightarrow> (string \<Rightarrow> int) \<Rightarrow> int" where
  "capped_total gs f = (\<Sum>g\<in>set gs. min (int (count_list gs g)) (f g))"

definition shared_count :: "ngram \<Rightarrow> string \<Rightarrow> item \<Rightarrow> int" where
  "shared_count self query m =
     capped_total (split_padded self query) (\<lambda>g. recorded self g m)"

text \<open>The sub-dictionaries are dictionaries (no key twice) and hold no negative count.\<close>

definition dict_ok :: "ngram \<Rightarrow> bool" where
  "dict_ok self \<longleftrightarrow>
     (\<forall>g sub. grams self g = Some sub \<longrightarrow>
        distinct (map fst sub) \<and> (\<forall>m c. map_of sub m = Some c \<longrightarrow> 0 \<le> c))"

text \<open>
  The data-model invariant: the tables record exactly the members, each with the
  length of its padded key and the number of occurrences of each of its n-grams.
\<close>

definition invar :: "ngram \<Rightarrow> bool" where
  "invar self \<longleftrightarrow>
     (\<forall>g sub. grams self g = Some sub \<longrightarrow> distinct (map fst sub)) \<and>
     (\<forall>g m. entry self g m =
        (if m \<in> members self \<and> g \<in> set (splititem self m)
         then Some (int (count_list (splititem self m) g)) else None)) \<and>
     (\<forall>m. length_tbl self m =
        (if m \<in> members self then Some (int (length (pad self (key self m)))) else None))"

text \<open>Lookup in the local dictionary \<^verbatim>\<open>remaining\<close> of \<^verbatim>\<open>items_sharing_ngrams\<close>.\<close>

definition rem_lookup :: "(string \<rightharpoonup> (item \<rightharpoonup> int)) \<Rightarrow> string \<Rightarrow> item \<Rightarrow> int option" where
  "rem_lookup remaining g m = (case remaining g of None \<Rightarrow> None | Some d \<Rightarrow> d m)"

definition sval :: "(item \<times> int) list \<Rightarrow> item \<Rightarrow> int" where
  "sval shared m = (case map_of shared m of None \<Rightarrow> 0 | Some c \<Rightarrow> c)"

definition start_rem :: "(string \<rightharpoonup> (item \<rightharpoonup> int)) \<Rightarrow> string \<Rightarrow> item \<Rightarrow> int \<Rightarrow> int" where
  "start_rem remaining g m c = (case rem_lookup remaining g m of None \<Rightarrow> c | Some r \<Rightarrow> r)"

definition credited :: "ngram \<Rightarrow> string list \<Rightarrow>
    (item \<times> int) list \<times> (string \<rightharpoonup> (item \<rightharpoonup> int)) \<Rightarrow> bool" where
  "credited self gs st \<longleftrightarrow>
     distinct (map fst (fst st)) \<and>
     (\<forall>m. map_of (fst st) m =
        (if capped_total gs (\<lambda>g. recorded self g m) = 0 then None
         else Some (capped_total gs (\<lambda>g. recorded self g m)))) \<and>
     (\<forall>g m. rem_lookup (snd st) g m =
        (if g \<in> set gs then
           (case entry self g m of
              None \<Rightarrow> None
            | Some c \<Rightarrow> Some (c - min (int (count_list gs g)) c))
         else None))"

definition glookup :: "(string \<rightharpoonup> (item \<times> int) list) \<Rightarrow> string \<Rightarrow> item \<Rightarrow> int option" where
  "glookup G g m = (case G g of None \<Rightarrow> None | Some sub \<Rightarrow> map_of sub m)"

definition keys_distinct :: "(string \<rightharpoonup> (item \<times> int) list) \<Rightarrow> bool" where
  "keys_distinct G \<longleftrightarrow> (\<forall>g sub. G g = Some sub \<longrightarrow> distinct (map fst sub))"

definition example_index :: ngram where
  "example_index = update default_ngram [''ham'', ''spam'', ''eggs'']"



definition ham_index :: ngram where
  "ham_index = update default_ngram [''ham'']"

section \<open>Theorems\<close>

subsection \<open>Tokenization\<close>

lemma length_py_range: "length (py_range n) = nat n"
  by (simp add: py_range_def)

lemma nth_py_range: "i < nat n \<Longrightarrow> py_range n ! i = int i"
  by (simp add: py_range_def)

lemma py_slice_window:
  assumes "0 \<le> n" "i + nat n \<le> length s"
  shows "py_slice s (int i) (int i + n) = take (nat n) (drop i s)"
proof -
  have lo: "slice_bound (int (length s)) (int i) = int i"
    using assms by (simp add: slice_bound_def)
  have hi: "slice_bound (int (length s)) (int i + n) = int i + n"
    using assms by (simp add: slice_bound_def)
  show ?thesis
    by (simp add: py_slice_def lo hi)
qed

lemma length_padding:
  "valid_config self \<Longrightarrow> length (padding self) = nat (pad_len self)"
  by (cases "pad_char self") (auto simp: valid_config_def length_concat sum_list_replicate)

lemma length_pad:
  "valid_config self \<Longrightarrow> int (length (pad self s)) = int (length s) + 2 * pad_len self"
  by (simp add: pad_def length_padding) (simp add: valid_config_def)

lemma length_split_raw:
  "length (split_raw self s) = nat (int (length s) - N self + 1)"
  by (simp add: split_raw_def length_py_range)

text \<open>
  C6. For a key of length \<open>k\<close>, \<open>split\<close> yields exactly \<open>k + 2 * pad_len - N + 1\<close>
  n-grams when that value is not negative and none otherwise, and the n-gram number
  \<open>i\<close> is the substring of length \<open>N\<close> of the padded string at offset \<open>i\<close>, for the
  offsets \<open>0 .. len(padded) - N\<close> in that order.
\<close>

theorem split_length_law:
  assumes "valid_config self"
  shows "int (length (split_padded self s)) =
           (if 0 \<le> int (length s) + 2 * pad_len self - N self + 1
            then int (length s) + 2 * pad_len self - N self + 1 else 0)
         \<and> (\<forall>i. int i \<le> int (length (pad self s)) - N self \<longrightarrow>
               i < length (split_padded self s) \<and>
               split_padded self s ! i = take (nat (N self)) (drop i (pad self s)))"
proof (intro conjI allI impI)
  show "int (length (split_padded self s)) =
           (if 0 \<le> int (length s) + 2 * pad_len self - N self + 1
            then int (length s) + 2 * pad_len self - N self + 1 else 0)"
    using length_pad [OF assms, of s] by (simp add: split_padded_def length_split_raw)
next
  fix i
  assume i: "int i \<le> int (length (pad self s)) - N self"
  have n1: "1 \<le> N self"
    using assms by (simp add: valid_config_def)
  from i show "i < length (split_padded self s)"
    by (simp add: split_padded_def length_split_raw)
next
  fix i
  assume i: "int i \<le> int (length (pad self s)) - N self"
  have n1: "1 \<le> N self"
    using assms by (simp add: valid_config_def)
  have lt: "i < nat (int (length (pad self s)) - N self + 1)"
    using i by simp
  have fits: "i + nat (N self) \<le> length (pad self s)"
    using i n1 by simp
  have "split_padded self s ! i = py_slice (pad self s) (int i) (int i + N self)"
    using lt by (simp add: split_padded_def split_raw_def length_py_range nth_py_range)
  also have "\<dots> = take (nat (N self)) (drop i (pad self s))"
    using n1 fits by (intro py_slice_window) simp_all
  finally show "split_padded self s ! i = take (nat (N self)) (drop i (pad self s))" .
qed

lemma valid_default_ngram: "valid_config default_ngram"
  by (simp add: valid_config_def default_ngram_def eval_nat_numeral)

theorem split_length_law_witness:
  "int (length (split_padded default_ngram ''ham'')) = 5
   \<and> split_padded default_ngram ''ham'' ! 2 = ''ham''"
proof -
  have p: "pad default_ngram ''ham'' = ''$$ham$$''"
    by (simp add: default_ngram_def pad_def)
  have n: "N default_ngram = 3" "pad_len default_ngram = 2"
    by (simp_all add: default_ngram_def)
  note law = split_length_law [OF valid_default_ngram, of "''ham''"]
  have a: "int (length (split_padded default_ngram ''ham'')) = 5"
    using law [THEN conjunct1] by (simp add: n)
  have "split_padded default_ngram ''ham'' ! 2 = ''ham''"
    using law [THEN conjunct2, rule_format, of 2] by (simp add: p n eval_nat_numeral)
  with a show ?thesis by simp
qed

lemma py_pow_pos: "0 < x \<Longrightarrow> py_pow x y = Inr (x powr y)"
  by (simp add: py_pow_def)

lemma py_pow_nonneg: "0 \<le> x \<Longrightarrow> 0 < y \<Longrightarrow> py_pow x y = Inr (x powr y)"
  by (simp add: py_pow_def)

lemma similarity_linear:
  "\<bar>w - 1\<bar> < 1 / 10 ^ 9 \<Longrightarrow> a \<noteq> 0 \<Longrightarrow>
   similarity s a w = Inr (real_of_int s / real_of_int a)"
  by (simp add: similarity_def py_div_def)

lemma similarity_warped:
  assumes "\<not> \<bar>w - 1\<bar> < 1 / 10 ^ 9" "0 < a" "s \<le> a" "0 < w"
  shows "similarity s a w =
     Inr ((real_of_int a powr w - real_of_int (a - s) powr w) / real_of_int a powr w)"
proof -
  have a: "py_pow (real_of_int a) w = Inr (real_of_int a powr w)"
    using assms by (simp add: py_pow_pos)
  have d: "py_pow (real_of_int a - real_of_int s) w = Inr ((real_of_int a - real_of_int s) powr w)"
    using assms by (intro py_pow_nonneg) simp_all
  have nz: "real_of_int a powr w \<noteq> 0"
    using assms by simp
  show ?thesis
    using assms(1) nz by (simp add: similarity_def a d py_div_def Let_def)
qed












lemma split_padded_aaaa:
  "split_padded default_ngram ''aaaa'' = [''$$a'', ''$aa'', ''aaa'', ''aaa'', ''aa$'', ''a$$'']"
  by (simp add: split_padded_def split_raw_def pad_def default_ngram_def py_range_def
      py_slice_def slice_bound_def upt_rec)

text \<open>
  C1. \<^verbatim>\<open>add(x)\<close> followed by \<^verbatim>\<open>remove(x)\<close> should restore the tables. For the item
  \<^verbatim>\<open>'aaaa'\<close> in the empty default index it does not: the padded key holds the n-gram
  \<^verbatim>\<open>'aaa'\<close> twice, \<^verbatim>\<open>remove\<close> raises KeyError at the second deletion, and the
  entry under \<^verbatim>\<open>'aa$'\<close>, absent before the \<^verbatim>\<open>add\<close>, is still recorded.
\<close>

theorem remove_repeated_ngram_KeyError:
  "''aaaa'' \<notin> members default_ngram
   \<and> snd (remove (add default_ngram ''aaaa'') ''aaaa'') = Some KeyError
   \<and> grams (fst (remove (add default_ngram ''aaaa'') ''aaaa'')) ''aa$'' = Some [(''aaaa'', 1)]
   \<and> grams default_ngram ''aa$'' = None"
  by code_simp

text \<open>
  C2. An invalid argument should raise a ValueError that names the parameter and its
  value. The constructor builds the message by adding a number to a string, so a
  threshold, warp, N or pad_len out of range raises TypeError; so does a pad_char or
  a key that is not a string.
\<close>

theorem init_invalid_argument_TypeError:
  "init [] 2 1 KeyNone 3 None (PyStr ''$'') = Inl TypeError
   \<and> init [] 0 4 KeyNone 3 None (PyStr ''$'') = Inl TypeError
   \<and> init [] 0 1 KeyNone 0 None (PyStr ''$'') = Inl TypeError
   \<and> init [] 0 1 KeyNone 3 (Some 3) (PyStr ''$'') = Inl TypeError
   \<and> init [] 0 1 KeyNone 3 None (PyInt 7) = Inl TypeError
   \<and> init [] 0 1 (KeyOther (PyInt 7)) 3 None (PyStr ''$'') = Inl TypeError"
  by (simp add: init_def raise_ValueError_def str_add_def)

lemma init_rejects:
  assumes "\<not> (0 \<le> thr \<and> thr \<le> 1) \<or> \<not> (1 \<le> w \<and> w \<le> 3) \<or> n < 1
     \<or> \<not> (0 \<le> (case pl of None \<Rightarrow> n - 1 | Some p \<Rightarrow> p) \<and> (case pl of None \<Rightarrow> n - 1 | Some p \<Rightarrow> p) < n)
     \<or> \<not> (\<exists>c. pc = PyStr [c]) \<or> (\<exists>v. ky = KeyOther v)"
  shows "\<exists>e. init items thr w ky n pl pc = Inl e"
  using assms
  by (auto simp: init_def raise_ValueError_def str_add_def Let_def
      split: pyval.splits list.splits keyarg.splits option.splits)

lemma init_numeric_TypeError:
  assumes "\<not> (0 \<le> thr \<and> thr \<le> 1) \<or> \<not> (1 \<le> w \<and> w \<le> 3) \<or> n < 1
     \<or> \<not> (0 \<le> (case pl of None \<Rightarrow> n - 1 | Some p \<Rightarrow> p) \<and> (case pl of None \<Rightarrow> n - 1 | Some p \<Rightarrow> p) < n)"
  shows "init items thr w ky n pl pc = Inl TypeError"
  using assms
  by (auto simp: init_def raise_ValueError_def str_add_def Let_def)

lemma credit_shared:
  "map_of (fst (credit g (m, c) (shared, remaining))) m' =
     (if m' = m \<and> 0 < (case rem_lookup remaining g m of None \<Rightarrow> c | Some r \<Rightarrow> r)
      then Some (sval shared m + 1) else map_of shared m')"
  by (auto simp: credit_def rem_lookup_def sval_def Let_def update_conv'
      split: option.splits)

lemma credit_remaining:
  "rem_lookup (snd (credit g (m, c) (shared, remaining))) g' m' =
     (if g' = g \<and> m' = m
      then Some (let r = (case rem_lookup remaining g m of None \<Rightarrow> c | Some r \<Rightarrow> r)
                 in if 0 < r then r - 1 else r)
      else rem_lookup remaining g' m')"
  by (auto simp: credit_def rem_lookup_def Let_def split: option.splits)

lemma credit_distinct:
  "distinct (map fst shared) \<Longrightarrow> distinct (map fst (fst (credit g (m, c) (shared, remaining))))"
  by (auto simp: credit_def Let_def distinct_update split: option.splits)

lemma fold_credit_aux:
  assumes "distinct (map fst sub)"
  shows "(\<forall>m. map_of (fst (fold (credit g) sub (shared, remaining))) m =
           (case map_of sub m of
              None \<Rightarrow> map_of shared m
            | Some c \<Rightarrow> if 0 < start_rem remaining g m c then Some (sval shared m + 1)
                       else map_of shared m))
       \<and> (\<forall>g' m. rem_lookup (snd (fold (credit g) sub (shared, remaining))) g' m =
           (if g' = g then
              (case map_of sub m of
                 None \<Rightarrow> rem_lookup remaining g m
               | Some c \<Rightarrow> Some (if 0 < start_rem remaining g m c
                                 then start_rem remaining g m c - 1
                                 else start_rem remaining g m c))
            else rem_lookup remaining g' m))
       \<and> (distinct (map fst shared) \<longrightarrow>
           distinct (map fst (fst (fold (credit g) sub (shared, remaining)))))"
  using assms
proof (induction sub arbitrary: shared remaining)
  case Nil
  show ?case by simp
next
  case (Cons p sub)
  obtain m0 c0 where p: "p = (m0, c0)"
    by (cases p)
  obtain sh1 rm1 where st1: "credit g (m0, c0) (shared, remaining) = (sh1, rm1)"
    by (cases "credit g (m0, c0) (shared, remaining)")
  have sh1: "map_of sh1 m' =
     (if m' = m0 \<and> 0 < start_rem remaining g m0 c0 then Some (sval shared m0 + 1)
      else map_of shared m')" for m'
    using credit_shared [of g m0 c0 shared remaining m'] by (simp add: st1 start_rem_def)
  have rm1: "rem_lookup rm1 g' m' =
     (if g' = g \<and> m' = m0
      then Some (if 0 < start_rem remaining g m0 c0 then start_rem remaining g m0 c0 - 1
                 else start_rem remaining g m0 c0)
      else rem_lookup remaining g' m')" for g' m'
    using credit_remaining [of g m0 c0 shared remaining g' m']
    by (simp add: st1 start_rem_def Let_def)
  from Cons.prems have d: "distinct (map fst sub)" and notin: "m0 \<notin> fst ` set sub"
    by (auto simp: p)
  have none: "map_of sub m0 = None"
    using notin by (simp add: map_of_eq_None_iff)
  have other: "start_rem rm1 g m c = start_rem remaining g m c" if "m \<noteq> m0" for m c
    using that by (simp add: start_rem_def rm1)
  have sv: "sval sh1 m = sval shared m" if "m \<noteq> m0" for m
    using that by (simp add: sval_def sh1)
  note IH = Cons.IH [OF d, of sh1 rm1]
  have fold_eq: "fold (credit g) (p # sub) (shared, remaining) = fold (credit g) sub (sh1, rm1)"
    by (simp add: p st1)
  have "map_of (fst (fold (credit g) sub (sh1, rm1))) m =
           (case map_of (p # sub) m of
              None \<Rightarrow> map_of shared m
            | Some c \<Rightarrow> if 0 < start_rem remaining g m c then Some (sval shared m + 1)
                       else map_of shared m)" for m
  proof (cases "m = m0")
    case True
    then show ?thesis
      using IH [THEN conjunct1, rule_format, of m0] by (simp add: p none sh1)
  next
    case False
    then show ?thesis
      using IH [THEN conjunct1, rule_format, of m]
      by (simp add: p sh1 other sv split: option.splits)
  qed
  moreover have "rem_lookup (snd (fold (credit g) sub (sh1, rm1))) g' m =
           (if g' = g then
              (case map_of (p # sub) m of
                 None \<Rightarrow> rem_lookup remaining g m
               | Some c \<Rightarrow> Some (if 0 < start_rem remaining g m c
                                 then start_rem remaining g m c - 1
                                 else start_rem remaining g m c))
            else rem_lookup remaining g' m)" for g' m
  proof (cases "m = m0")
    case True
    then show ?thesis
      using IH [THEN conjunct2, THEN conjunct1, rule_format, of g' m0]
      by (simp add: p none rm1)
  next
    case False
    then show ?thesis
      using IH [THEN conjunct2, THEN conjunct1, rule_format, of g' m]
      by (simp add: p rm1 other split: option.splits)
  qed
  moreover have "distinct (map fst (fst (fold (credit g) sub (sh1, rm1))))"
    if ds: "distinct (map fst shared)"
  proof -
    have "distinct (map fst sh1)"
      using credit_distinct [OF ds, of g m0 c0 remaining] by (simp add: st1)
    then show ?thesis
      using IH [THEN conjunct2, THEN conjunct2] by simp
  qed
  ultimately show ?case
    unfolding fold_eq by blast
qed

lemma capped_total_nonneg: "(\<And>g. 0 \<le> f g) \<Longrightarrow> 0 \<le> capped_total gs f"
  by (simp add: capped_total_def sum_nonneg)

lemma capped_total_snoc:
  assumes "0 \<le> f g"
  shows "capped_total (gs @ [g]) f =
           capped_total gs f + (if int (count_list gs g) < f g then 1 else 0)"
proof -
  have m: "min (int (count_list (gs @ [g]) g)) (f g)
      = min (int (count_list gs g)) (f g) + (if int (count_list gs g) < f g then 1 else 0)"
    by (simp add: min_def)
  show ?thesis
  proof (cases "g \<in> set gs")
    case True
    have fin: "finite (set gs)" by simp
    have rest: "(\<Sum>x\<in>set gs - {g}. min (int (count_list (gs @ [g]) x)) (f x))
              = (\<Sum>x\<in>set gs - {g}. min (int (count_list gs x)) (f x))"
      by (rule sum.cong) auto
    have A: "capped_total (gs @ [g]) f =
        min (int (count_list (gs @ [g]) g)) (f g)
        + (\<Sum>x\<in>set gs - {g}. min (int (count_list (gs @ [g]) x)) (f x))"
      using True sum.remove [OF fin True, of "\<lambda>x. min (int (count_list (gs @ [g]) x)) (f x)"]
      by (simp add: capped_total_def insert_absorb)
    have B: "capped_total gs f =
        min (int (count_list gs g)) (f g)
        + (\<Sum>x\<in>set gs - {g}. min (int (count_list gs x)) (f x))"
      using sum.remove [OF fin True, of "\<lambda>x. min (int (count_list gs x)) (f x)"]
      by (simp add: capped_total_def)
    show ?thesis
      unfolding A B rest m by simp
  next
    case False
    have rest: "(\<Sum>x\<in>set gs. min (int (count_list (gs @ [g]) x)) (f x))
              = (\<Sum>x\<in>set gs. min (int (count_list gs x)) (f x))"
      using False by (intro sum.cong) auto
    have A: "capped_total (gs @ [g]) f =
        min (int (count_list (gs @ [g]) g)) (f g)
        + (\<Sum>x\<in>set gs. min (int (count_list (gs @ [g]) x)) (f x))"
      using False by (simp add: capped_total_def)
    have z: "min (int (count_list gs g)) (f g) = 0"
      using False assms by simp
    show ?thesis
      unfolding A rest m z by (simp add: capped_total_def)
  qed
qed

lemma recorded_nonneg: "dict_ok self \<Longrightarrow> 0 \<le> recorded self g m"
  by (auto simp: dict_ok_def recorded_def entry_def split: option.splits)

lemma credited_start: "credited self [] ([], Map.empty)"
  by (simp add: credited_def capped_total_def rem_lookup_def)

lemma credited_step:
  assumes ok: "dict_ok self" and P: "credited self gs st"
  shows "credited self (gs @ [g]) (credit_ngram self g st)"
proof -
  obtain shared remaining where st: "st = (shared, remaining)"
    by (cases st)
  let ?T = "\<lambda>m. capped_total gs (\<lambda>g. recorded self g m)"
  let ?T' = "\<lambda>m. capped_total (gs @ [g]) (\<lambda>g. recorded self g m)"
  from P have ds: "distinct (map fst shared)"
    and sh: "\<And>m. map_of shared m = (if ?T m = 0 then None else Some (?T m))"
    and rm: "\<And>g m. rem_lookup remaining g m =
        (if g \<in> set gs then
           (case entry self g m of
              None \<Rightarrow> None
            | Some c \<Rightarrow> Some (c - min (int (count_list gs g)) c))
         else None)"
    by (simp_all add: credited_def st)
  have T0: "0 \<le> ?T m" for m
    by (intro capped_total_nonneg recorded_nonneg ok)
  have T': "?T' m = ?T m + (if int (count_list gs g) < recorded self g m then 1 else 0)" for m
    by (intro capped_total_snoc recorded_nonneg ok)
  have sv: "sval shared m = ?T m" for m
    by (simp add: sval_def sh)
  show ?thesis
  proof (cases "grams self g")
    case None
    then have e: "entry self g m = None" "recorded self g m = 0" for m
      by (simp_all add: entry_def recorded_def)
    have same: "credit_ngram self g st = (shared, remaining)"
      by (simp add: credit_ngram_def None st)
    have "?T' m = ?T m" for m
      by (simp add: T' e)
    then show ?thesis
      unfolding same credited_def
      using ds sh rm e by (auto split: option.splits)
  next
    case (Some sub)
    then have e: "entry self g m = map_of sub m" for m
      by (simp add: entry_def)
    from ok Some have dsub: "distinct (map fst sub)"
      and pos: "\<And>m c. map_of sub m = Some c \<Longrightarrow> 0 \<le> c"
      by (auto simp: dict_ok_def)
    have step: "credit_ngram self g st = fold (credit g) sub (shared, remaining)"
      by (simp add: credit_ngram_def Some st)
    note F = fold_credit_aux [OF dsub, of g shared remaining]
    have sr: "start_rem remaining g m c = c - min (int (count_list gs g)) c"
      if "map_of sub m = Some c" for m c
      using that pos [OF that] by (auto simp: start_rem_def rm e)
    have rec: "recorded self g m = (case map_of sub m of None \<Rightarrow> 0 | Some c \<Rightarrow> c)" for m
      by (simp add: recorded_def e)
    have c1: "distinct (map fst (fst (fold (credit g) sub (shared, remaining))))"
      using F ds by blast
    have c2: "map_of (fst (fold (credit g) sub (shared, remaining))) m =
        (if ?T' m = 0 then None else Some (?T' m))" for m
    proof (cases "map_of sub m")
      case None
      then show ?thesis
        using F [THEN conjunct1, rule_format, of m] by (simp add: T' rec sh)
    next
      case (Some c)
      show ?thesis
        using F [THEN conjunct1, rule_format, of m] T0 [of m] pos [OF Some]
        by (simp add: Some sr [OF Some] T' rec sh sv min_def)
    qed
    have c3: "rem_lookup (snd (fold (credit g) sub (shared, remaining))) g' m =
        (if g' \<in> set (gs @ [g]) then
           (case entry self g' m of
              None \<Rightarrow> None
            | Some c \<Rightarrow> Some (c - min (int (count_list (gs @ [g]) g')) c))
         else None)" for g' m
    proof (cases "g' = g")
      case False
      then have "count_list (gs @ [g]) g' = count_list gs g'"
        by auto
      with False show ?thesis
        using F [THEN conjunct2, THEN conjunct1, rule_format, of g' m]
        by (simp add: rm del: count_list_append cong: option.case_cong)
    next
      case True
      show ?thesis
      proof (cases "map_of sub m")
        case None
        then show ?thesis
          using F [THEN conjunct2, THEN conjunct1, rule_format, of g' m] True
          by (simp add: rm e)
      next
        case (Some c)
        show ?thesis
          using F [THEN conjunct2, THEN conjunct1, rule_format, of g' m] True pos [OF Some]
          by (simp add: Some sr [OF Some] e min_def)
      qed
    qed
    show ?thesis
      unfolding step credited_def using c1 c2 c3 by blast
  qed
qed

lemma credited_fold:
  "dict_ok self \<Longrightarrow> credited self gs (fold (credit_ngram self) gs ([], Map.empty))"
  by (induction gs rule: rev_induct) (simp_all add: credited_start credited_step)

lemma items_sharing_ngrams_char:
  assumes "dict_ok self"
  shows "distinct (map fst (items_sharing_ngrams self query))"
    and "map_of (items_sharing_ngrams self query) m =
           (if shared_count self query m = 0 then None else Some (shared_count self query m))"
  using credited_fold [OF assms, of "split_padded self query"]
  by (simp_all add: credited_def items_sharing_ngrams_def shared_count_def)

lemma entry_glookup: "entry self g m = glookup (grams self) g m"
  by (simp add: entry_def glookup_def)

lemma add_ngram_lookup:
  "glookup (add_ngram x g G) g' m =
     (if g' = g \<and> m = x then Some ((case glookup G g x of None \<Rightarrow> 0 | Some c \<Rightarrow> c) + 1)
      else glookup G g' m)"
  by (auto simp: add_ngram_def glookup_def Let_def update_conv' split: option.splits)

lemma add_ngram_distinct: "keys_distinct G \<Longrightarrow> keys_distinct (add_ngram x g G)"
  by (auto simp: add_ngram_def keys_distinct_def Let_def distinct_update split: option.splits)

lemma fold_add_ngram_lookup:
  "glookup (fold (add_ngram x) gs G) g m =
     (if m = x \<and> g \<in> set gs
      then Some ((case glookup G g x of None \<Rightarrow> 0 | Some c \<Rightarrow> c) + int (count_list gs g))
      else glookup G g m)"
proof (induction gs arbitrary: G)
  case Nil
  show ?case by simp
next
  case (Cons a gs)
  show ?case
    by (auto simp: Cons.IH add_ngram_lookup split: option.splits)
qed

lemma fold_add_ngram_distinct:
  "keys_distinct G \<Longrightarrow> keys_distinct (fold (add_ngram x) gs G)"
  by (induction gs arbitrary: G) (simp_all add: add_ngram_distinct)

lemma config_add [simp]:
  "key (add self x) = key self" "pad (add self x) = pad self"
  "split_raw (add self x) = split_raw self" "split_padded (add self x) = split_padded self"
  "splititem (add self x) = splititem self"
  by (auto simp: fun_eq_iff add_def key_def pad_def split_raw_def split_padded_def
      splititem_def Let_def)

lemma invar_add:
  assumes "invar self"
  shows "invar (add self x)"
proof (cases "x \<in> members self")
  case True
  then show ?thesis
    using assms by (simp add: add_def)
next
  case False
  let ?gs = "split_raw self (pad self (key self x))"
  have gs: "?gs = splititem self x"
    by (simp add: splititem_def split_padded_def)
  from assms have kd: "keys_distinct (grams self)"
    and en: "\<And>g m. glookup (grams self) g m =
        (if m \<in> members self \<and> g \<in> set (splititem self m)
         then Some (int (count_list (splititem self m) g)) else None)"
    and ln: "\<And>m. length_tbl self m =
        (if m \<in> members self then Some (int (length (pad self (key self m)))) else None)"
    by (simp_all add: invar_def keys_distinct_def entry_glookup)
  have m: "members (add self x) = insert x (members self)"
    and l: "length_tbl (add self x) = (length_tbl self)(x \<mapsto> int (length (pad self (key self x))))"
    and g: "grams (add self x) = fold (add_ngram x) (splititem self x) (grams self)"
    using False by (simp_all add: add_def Let_def gs)
  have old: "glookup (grams self) g x = None" for g
    using False by (simp add: en)
  have "keys_distinct (grams (add self x))"
    unfolding g by (intro fold_add_ngram_distinct kd)
  moreover have "glookup (grams (add self x)) g m =
        (if m \<in> members (add self x) \<and> g \<in> set (splititem self m)
         then Some (int (count_list (splititem self m) g)) else None)" for g m
    unfolding g m using False by (simp add: fold_add_ngram_lookup old en)
  moreover have "length_tbl (add self x) m =
        (if m \<in> members (add self x) then Some (int (length (pad self (key self m)))) else None)" for m
    unfolding l m by (simp add: ln)
  ultimately show ?thesis
    by (simp add: invar_def keys_distinct_def entry_glookup)
qed

lemma invar_update: "invar self \<Longrightarrow> invar (update self items)"
  unfolding update_def by (induction items arbitrary: self) (simp_all add: invar_add)

lemma invar_empty:
  "members self = {} \<Longrightarrow> length_tbl self = Map.empty \<Longrightarrow> grams self = Map.empty \<Longrightarrow> invar self"
  by (simp add: invar_def entry_def)

lemma invar_dict_ok: "invar self \<Longrightarrow> dict_ok self"
  unfolding invar_def dict_ok_def entry_def
proof (intro allI impI conjI)
  fix g sub
  assume a: "(\<forall>g sub. grams self g = Some sub \<longrightarrow> distinct (map fst sub)) \<and>
    (\<forall>g m. (case grams self g of None \<Rightarrow> None | Some sub \<Rightarrow> map_of sub m) =
        (if m \<in> members self \<and> g \<in> set (splititem self m)
         then Some (int (count_list (splititem self m) g)) else None)) \<and>
    (\<forall>m. length_tbl self m =
        (if m \<in> members self then Some (int (length (pad self (key self m)))) else None))"
    and s: "grams self g = Some sub"
  from a s show "distinct (map fst sub)" by blast
  fix m c
  assume mc: "map_of sub m = Some c"
  from a have "(case grams self g of None \<Rightarrow> None | Some sub \<Rightarrow> map_of sub m) =
        (if m \<in> members self \<and> g \<in> set (splititem self m)
         then Some (int (count_list (splititem self m) g)) else None)"
    by blast
  with s mc show "0 \<le> c"
    by (auto split: if_splits)
qed

lemma members_add: "members (add self x) = insert x (members self)"
  by (auto simp: add_def Let_def)

lemma members_update: "members (update self items) = members self \<union> set items"
  unfolding update_def by (induction items arbitrary: self) (auto simp: members_add)

lemma valid_config_add [simp]: "valid_config (add self x) = valid_config self"
  by (simp add: valid_config_def add_def Let_def)

lemma fields_add [simp]:
  "threshold (add self x) = threshold self" "warp (add self x) = warp self"
  "N (add self x) = N self" "key_fn (add self x) = key_fn self" "padding (add self x) = padding self"
  by (simp_all add: add_def Let_def)

lemma sum_count_list_set: "(\<Sum>g\<in>set gs. int (count_list gs g)) = int (length gs)"
proof -
  have "(\<Sum>g\<in>set gs. count_list gs g) = length gs"
    by (rule sum_count_set) simp_all
  then have "int (\<Sum>g\<in>set gs. count_list gs g) = int (length gs)"
    by simp
  then show ?thesis
    by (simp only: of_nat_sum)
qed

lemma capped_total_le_query: "capped_total gs f \<le> int (length gs)"
proof -
  have "capped_total gs f \<le> (\<Sum>g\<in>set gs. int (count_list gs g))"
    unfolding capped_total_def by (rule sum_mono) simp
  then show ?thesis
    by (simp add: sum_count_list_set)
qed

lemma capped_total_inter:
  "capped_total gs (\<lambda>g. int (count_list hs g)) =
     (\<Sum>g\<in>set gs \<inter> set hs. min (int (count_list gs g)) (int (count_list hs g)))"
  unfolding capped_total_def
  by (rule sum.mono_neutral_right) auto

lemma capped_total_sym:
  "capped_total gs (\<lambda>g. int (count_list hs g)) = capped_total hs (\<lambda>g. int (count_list gs g))"
  by (simp add: capped_total_inter Int_commute min.commute)

lemma capped_total_self: "capped_total gs (\<lambda>g. int (count_list gs g)) = int (length gs)"
  by (simp add: capped_total_def sum_count_list_set)

lemma capped_total_le_item: "capped_total gs (\<lambda>g. int (count_list hs g)) \<le> int (length hs)"
  using capped_total_le_query [of hs "\<lambda>g. int (count_list gs g)"]
  by (simp add: capped_total_sym [of gs hs])

lemma capped_total_zero: "capped_total gs (\<lambda>g. 0) = 0"
  by (simp add: capped_total_def)

lemma recorded_invar:
  "invar self \<Longrightarrow> recorded self g m =
     (if m \<in> members self then int (count_list (splititem self m) g) else 0)"
  by (simp add: invar_def recorded_def)

lemma shared_count_invar:
  assumes "invar self"
  shows "shared_count self query m =
     (if m \<in> members self
      then capped_total (split_padded self query) (\<lambda>g. int (count_list (splititem self m) g))
      else 0)"
  by (simp add: shared_count_def recorded_invar [OF assms] capped_total_zero)

lemma shared_count_bounds:
  assumes "invar self"
  shows "0 \<le> shared_count self query m"
    and "shared_count self query m \<le> int (length (split_padded self query))"
    and "shared_count self query m \<le> int (length (splititem self m))"
    and "shared_count self query m \<noteq> 0 \<Longrightarrow> m \<in> members self"
proof -
  show "0 \<le> shared_count self query m"
    unfolding shared_count_def
    by (intro capped_total_nonneg recorded_nonneg invar_dict_ok assms)
  show "shared_count self query m \<le> int (length (split_padded self query))"
    unfolding shared_count_def by (rule capped_total_le_query)
  show "shared_count self query m \<le> int (length (splititem self m))"
    by (simp add: shared_count_invar [OF assms] capped_total_le_item)
  show "shared_count self query m \<noteq> 0 \<Longrightarrow> m \<in> members self"
    by (simp add: shared_count_invar [OF assms] split: if_splits)
qed

lemma length_split_padded:
  "length (split_padded self s) = nat (int (length (pad self s)) - N self + 1)"
  by (simp add: split_padded_def length_split_raw)

lemma length_splititem:
  "length (splititem self m) = nat (int (length (pad self (key self m))) - N self + 1)"
  by (simp add: splititem_def length_split_padded)

lemma allgrams_of_counts:
  assumes "1 \<le> length (split_padded self query)" "1 \<le> length (splititem self m)"
  shows "allgrams_of self query (int (length (pad self (key self m)))) same =
           int (length (split_padded self query)) + int (length (splititem self m)) - same"
  using assms by (simp add: allgrams_of_def length_split_padded length_splititem)

text \<open>What an entry of the shared dictionary is, in an index that satisfies the invariant.\<close>

lemma shared_entry_invar:
  assumes inv: "invar self" and mem: "(m, same) \<in> set (items_sharing_ngrams self query)"
  shows "same = shared_count self query m" "1 \<le> same" "m \<in> members self"
    "length_tbl self m = Some (int (length (pad self (key self m))))"
    "allgrams_of self query (int (length (pad self (key self m)))) same =
       int (length (split_padded self query)) + int (length (splititem self m)) - same"
    "same \<le> int (length (split_padded self query))"
    "same \<le> int (length (splititem self m))"
proof -
  note ch = items_sharing_ngrams_char [OF invar_dict_ok [OF inv], of query]
  from mem ch(1) have "map_of (items_sharing_ngrams self query) m = Some same"
    by simp
  with ch(2) [of m] have nz: "shared_count self query m \<noteq> 0"
    and eq: "same = shared_count self query m"
    by (auto split: if_splits)
  note b = shared_count_bounds [OF inv, of query m]
  show "same = shared_count self query m" by (rule eq)
  show one: "1 \<le> same" using nz b(1) eq by simp
  show m: "m \<in> members self" using b(4) nz by simp
  show "length_tbl self m = Some (int (length (pad self (key self m))))"
    using inv m by (simp add: invar_def)
  show q: "same \<le> int (length (split_padded self query))" using b(2) eq by simp
  show i: "same \<le> int (length (splititem self m))" using b(3) eq by simp
  show "allgrams_of self query (int (length (pad self (key self m)))) same =
       int (length (split_padded self query)) + int (length (splititem self m)) - same"
    using one q i by (intro allgrams_of_counts) simp_all
qed

lemma similarity_defined:
  assumes "1 \<le> s" "s \<le> a" "1 \<le> w"
  shows "\<exists>sim. similarity s a w = Inr sim"
proof (cases "\<bar>w - 1\<bar> < 1 / 10 ^ 9")
  case True
  then show ?thesis
    using assms by (simp add: similarity_linear)
next
  case False
  then show ?thesis
    using assms similarity_warped [of w a s] by simp
qed

lemma search_loop_set:
  "search_loop self query thr xs acc = Inr res \<Longrightarrow>
   set res = set acc \<union>
     {(m, sim). \<exists>same len. (m, same) \<in> set xs \<and> length_tbl self m = Some len \<and>
        similarity same (allgrams_of self query len same) (warp self) = Inr sim \<and> thr \<le> sim}"
proof (induction xs arbitrary: acc)
  case Nil
  then show ?case by simp
next
  case (Cons p xs)
  obtain m same where p: "p = (m, same)"
    by (cases p)
  from Cons.prems obtain len where len: "length_tbl self m = Some len"
    by (auto simp: p get_item_length_def split: option.splits)
  from Cons.prems len obtain sim where
    sim: "similarity same (allgrams_of self query len same) (warp self) = Inr sim"
    by (auto simp: p get_item_length_def split: sum.splits)
  from Cons.prems have rest: "search_loop self query thr xs
      (if thr \<le> sim then acc @ [(m, sim)] else acc) = Inr res"
    by (simp add: p get_item_length_def len sim)
  show ?case
    unfolding Cons.IH [OF rest] using len sim by (auto simp: p)
qed

lemma search_loop_total:
  assumes "\<And>m same. (m, same) \<in> set xs \<Longrightarrow>
     \<exists>len sim. length_tbl self m = Some len \<and>
        similarity same (allgrams_of self query len same) (warp self) = Inr sim"
  shows "\<exists>res. search_loop self query thr xs acc = Inr res"
  using assms
proof (induction xs arbitrary: acc)
  case Nil
  show ?case by simp
next
  case (Cons p xs)
  obtain m same where p: "p = (m, same)"
    by (cases p)
  from Cons.prems [of m same] obtain len sim where
    "length_tbl self m = Some len"
    "similarity same (allgrams_of self query len same) (warp self) = Inr sim"
    by (auto simp: p)
  moreover have "\<exists>res. search_loop self query thr xs acc' = Inr res" for acc'
    by (rule Cons.IH) (use Cons.prems in auto)
  ultimately show ?case
    by (simp add: p get_item_length_def)
qed

lemma sorted_desc_sort_key:
  "sorted (rev (map snd (sort_key (\<lambda>x. - snd x) (xs :: ('a \<times> real) list))))"
proof -
  have "sorted (map (\<lambda>x. - snd x) (sort_key (\<lambda>x. - snd x) xs))"
    by (rule sorted_sort_key)
  then have "sorted (map uminus (map snd (sort_key (\<lambda>x. - snd x) xs)))"
    by (simp add: comp_def)
  then show ?thesis
    by (simp add: sorted_wrt_rev sorted_map sorted_wrt_map)
qed

text \<open>
  C3. In an index that satisfies the data-model invariant, under a configuration the
  constructor accepts, \<open>search\<close> returns a list; the list is sorted by similarity in
  non-increasing order; and a pair \<open>(item, similarity)\<close> is in it exactly when the item
  comes from \<open>items_sharing_ngrams\<close> with some \<open>sameGrams\<close>, its similarity is computed
  with the denominator \<open>len(pad(query)) + length[item] - 2*N - sameGrams + 2\<close>, and
  reaches the threshold given, or the configured one when none is given.
\<close>

theorem search_spec:
  assumes "valid_config self" "invar self"
  shows "\<exists>res. search self query thr_arg = Inr res
     \<and> sorted (rev (map snd res))
     \<and> (\<forall>m sim. (m, sim) \<in> set res \<longleftrightarrow>
          (\<exists>same len. (m, same) \<in> set (items_sharing_ngrams self query)
             \<and> length_tbl self m = Some len
             \<and> similarity same
                  (int (length (pad self query)) + len - 2 * N self - same + 2) (warp self)
                 = Inr sim
             \<and> (case thr_arg of Some t \<Rightarrow> t | None \<Rightarrow> threshold self) \<le> sim))"
proof -
  let ?thr = "case thr_arg of Some t \<Rightarrow> t | None \<Rightarrow> threshold self"
  let ?xs = "items_sharing_ngrams self query"
  have w: "1 \<le> warp self"
    using assms(1) by (simp add: valid_config_def)
  have "\<exists>len sim. length_tbl self m = Some len \<and>
        similarity same (allgrams_of self query len same) (warp self) = Inr sim"
    if "(m, same) \<in> set ?xs" for m same
  proof -
    note e = shared_entry_invar [OF assms(2) that]
    have "same \<le> allgrams_of self query (int (length (pad self (key self m)))) same"
      using e(2,6,7) unfolding e(5) by simp
    from similarity_defined [OF e(2) this w] e(4) show ?thesis
      by blast
  qed
  from search_loop_total [of ?xs self query ?thr "[]", OF this]
  obtain results where r: "search_loop self query ?thr ?xs [] = Inr results"
    by blast
  have s: "search self query thr_arg = Inr (sort_key (\<lambda>x. - snd x) results)"
    by (simp add: search_def r)
  show ?thesis
    unfolding s using search_loop_set [OF r]
    by (simp add: sorted_desc_sort_key allgrams_of_def)
qed

lemma invar_example_index: "invar example_index"
  unfolding example_index_def
  by (intro invar_update invar_empty) (simp_all add: default_ngram_def)

lemma valid_example_index: "valid_config example_index"
  unfolding example_index_def update_def by (simp add: valid_default_ngram)

lemma shared_example_index:
  "items_sharing_ngrams example_index ''mam'' = [(''ham'', 2), (''spam'', 2)]"
  by code_simp

lemma length_example_index: "length_tbl example_index ''ham'' = Some 7"
  by code_simp

lemma fields_example_index:
  "warp example_index = 1" "N example_index = 3" "threshold example_index = 0"
  "pad example_index ''mam'' = ''$$mam$$''"
  by (simp_all add: example_index_def update_def pad_def default_ngram_def)

theorem search_spec_witness:
  "\<exists>res. search example_index ''mam'' None = Inr res \<and> sorted (rev (map snd res))
     \<and> (''ham'', 1 / 4) \<in> set res"
proof -
  from search_spec [OF valid_example_index invar_example_index, of "''mam''" None]
  obtain res where r: "search example_index ''mam'' None = Inr res"
    and s: "sorted (rev (map snd res))"
    and c: "\<And>m sim. (m, sim) \<in> set res \<longleftrightarrow>
          (\<exists>same len. (m, same) \<in> set (items_sharing_ngrams example_index ''mam'')
             \<and> length_tbl example_index m = Some len
             \<and> similarity same
                  (int (length (pad example_index ''mam'')) + len - 2 * N example_index - same + 2)
                  (warp example_index)
                 = Inr sim
             \<and> (case None of Some t \<Rightarrow> t | None \<Rightarrow> threshold example_index) \<le> sim)"
    by blast
  have "(''ham'', 1 / 4) \<in> set res"
    unfolding c
    by (rule exI [of _ 2], rule exI [of _ 7])
       (simp add: shared_example_index length_example_index fields_example_index
          similarity_linear)
  with r s show ?thesis by blast
qed

text \<open>
  C5. When the sub-dictionaries of the inverted index are dictionaries without
  negative counts, \<open>items_sharing_ngrams\<close> maps every item to the sum, over the
  distinct n-grams of the query, of the minimum of the number of occurrences in the
  query and the count recorded for the item, and has no entry for an item for which
  this sum is zero. The index built from ham, spam and eggs gives, for the query
  mam, ham and spam with 2 each and no entry for eggs.
\<close>

theorem items_sharing_ngrams_capped:
  assumes "dict_ok self"
  shows "distinct (map fst (items_sharing_ngrams self query))
     \<and> (\<forall>m. map_of (items_sharing_ngrams self query) m =
          (if shared_count self query m = 0 then None
           else Some (shared_count self query m)))
     \<and> map_of (items_sharing_ngrams (update default_ngram [''ham'', ''spam'', ''eggs'']) ''mam'')
         = [''ham'' \<mapsto> 2, ''spam'' \<mapsto> 2]"
proof (intro conjI allI)
  show "distinct (map fst (items_sharing_ngrams self query))"
    by (rule items_sharing_ngrams_char [OF assms])
  show "map_of (items_sharing_ngrams self query) m =
          (if shared_count self query m = 0 then None
           else Some (shared_count self query m))" for m
    by (rule items_sharing_ngrams_char [OF assms])
  show "map_of (items_sharing_ngrams (update default_ngram [''ham'', ''spam'', ''eggs'']) ''mam'')
         = [''ham'' \<mapsto> 2, ''spam'' \<mapsto> 2]"
    unfolding shared_example_index [unfolded example_index_def] by auto
qed

theorem items_sharing_ngrams_capped_witness:
  "shared_count example_index ''mam'' ''ham'' = 2
   \<and> shared_count example_index ''mam'' ''spam'' = 2
   \<and> shared_count example_index ''mam'' ''eggs'' = 0"
proof -
  note t = items_sharing_ngrams_capped [OF invar_dict_ok [OF invar_example_index], of "''mam''",
      THEN conjunct2, THEN conjunct1, rule_format]
  show ?thesis
    using t [of "''ham''"] t [of "''spam''"] t [of "''eggs''"]
    by (simp add: shared_example_index split: if_splits)
qed



lemma config_remove [simp]:
  "key (fst (remove self x)) = key self" "pad (fst (remove self x)) = pad self"
  "split_padded (fst (remove self x)) = split_padded self"
  "splititem (fst (remove self x)) = splititem self"
  "valid_config (fst (remove self x)) = valid_config self"
  by (auto simp: fun_eq_iff remove_def key_def pad_def split_raw_def split_padded_def
      splititem_def valid_config_def Let_def split: option.splits prod.splits)

















lemma alist_single:
  assumes d: "distinct (map fst xs)"
    and m: "\<And>k. map_of xs k = (if k = x \<and> t \<noteq> 0 then Some t else None)"
  shows "xs = (if t = (0::int) then [] else [(x, t)])"
proof (cases xs)
  case Nil
  with m [of x] show ?thesis
    by (simp split: if_splits)
next
  case (Cons p rest)
  obtain k v where p: "p = (k, v)"
    by (cases p)
  from m [of k] have kv: "k = x" "v = t" "t \<noteq> 0"
    by (simp_all add: Cons p split: if_splits)
  have "rest = []"
  proof (cases rest)
    case Nil
    then show ?thesis .
  next
    case (Cons q rest')
    obtain k' v' where q: "q = (k', v')"
      by (cases q)
    from d have "k' \<noteq> k"
      by (auto simp: \<open>xs = p # rest\<close> p Cons q)
    with m [of k'] kv show ?thesis
      by (simp add: \<open>xs = p # rest\<close> p Cons q split: if_splits)
  qed
  with kv show ?thesis
    by (simp add: Cons p)
qed

lemma shared_single:
  assumes inv: "invar self" and mem: "members self = {x}"
  shows "items_sharing_ngrams self query =
     (if shared_count self query x = 0 then [] else [(x, shared_count self query x)])"
proof (rule alist_single)
  note ch = items_sharing_ngrams_char [OF invar_dict_ok [OF inv], of query]
  show "distinct (map fst (items_sharing_ngrams self query))"
    by (rule ch(1))
  show "map_of (items_sharing_ngrams self query) k =
      (if k = x \<and> shared_count self query x \<noteq> 0 then Some (shared_count self query x) else None)"
    for k
  proof (cases "k = x")
    case True
    then show ?thesis
      by (simp add: ch(2))
  next
    case False
    then have "shared_count self query k = 0"
      by (simp add: shared_count_invar [OF inv] mem)
    with False show ?thesis
      by (simp add: ch(2))
  qed
qed

lemma search_single:
  assumes inv: "invar self" and mem: "members self = {x}"
  shows "search self query thr_arg =
     (if shared_count self query x = 0 then Inr []
      else
        (case similarity (shared_count self query x)
                (allgrams_of self query (int (length (pad self (key self x))))
                   (shared_count self query x))
                (warp self) of
           Inl e \<Rightarrow> Inl e
         | Inr sim \<Rightarrow>
             Inr (if (case thr_arg of Some t \<Rightarrow> t | None \<Rightarrow> threshold self) \<le> sim
                  then [(x, sim)] else [])))"
proof -
  have len: "get_item_length self x = Inr (int (length (pad self (key self x))))"
    using inv mem by (simp add: invar_def get_item_length_def)
  show ?thesis
  proof (cases "shared_count self query x = 0")
    case True
    then show ?thesis
      by (simp add: search_def shared_single [OF inv mem])
  next
    case False
    show ?thesis
    proof (cases "similarity (shared_count self query x)
                (allgrams_of self query (int (length (pad self (key self x))))
                   (shared_count self query x))
                (warp self)")
      case (Inl e)
      with False show ?thesis
        by (simp add: search_def shared_single [OF inv mem] len)
    next
      case (Inr sim)
      with False show ?thesis
        by (simp add: search_def shared_single [OF inv mem] len)
    qed
  qed
qed

lemma similarity_same:
  assumes "1 \<le> n" "1 \<le> w"
  shows "similarity n n w = Inr 1"
proof (cases "\<bar>w - 1\<bar> < 1 / 10 ^ 9")
  case True
  then show ?thesis
    using assms by (simp add: similarity_linear)
next
  case False
  then show ?thesis
    using assms similarity_warped [of w n n] by simp
qed

text \<open>
  C7. In an index that contains \<open>x\<close> and only \<open>x\<close>, when the key of \<open>x\<close> yields at
  least one n-gram and the threshold in force is at most 1, the search for the key of
  \<open>x\<close> returns \<open>x\<close> with similarity exactly 1.
\<close>

theorem self_similarity:
  assumes "valid_config self" "invar self" "members self = {x}"
    and "splititem self x \<noteq> []"
    and "(case thr_arg of Some t \<Rightarrow> t | None \<Rightarrow> threshold self) \<le> 1"
  shows "search self (key self x) thr_arg = Inr [(x, 1)]"
proof -
  let ?gs = "splititem self x"
  have w: "1 \<le> warp self"
    using assms(1) by (simp add: valid_config_def)
  have n: "1 \<le> length ?gs"
    using assms(4) by (cases ?gs) auto
  have gs: "split_padded self (key self x) = ?gs"
    by (simp add: splititem_def)
  have t: "shared_count self (key self x) x = int (length ?gs)"
    using assms(3) by (simp add: shared_count_invar [OF assms(2)] gs capped_total_self)
  have a: "allgrams_of self (key self x) (int (length (pad self (key self x)))) (int (length ?gs))
      = int (length ?gs)"
    using n by (subst allgrams_of_counts) (simp_all add: gs)
  have s: "similarity (int (length ?gs)) (int (length ?gs)) (warp self) = Inr 1"
    using n w by (intro similarity_same) simp_all
  show ?thesis
    unfolding search_single [OF assms(2,3)] t a s using assms(4,5) by simp
qed

lemma config_update [simp]:
  "key (update self xs) = key self" "pad (update self xs) = pad self"
  "split_padded (update self xs) = split_padded self"
  "splititem (update self xs) = splititem self"
  "valid_config (update self xs) = valid_config self"
  "threshold (update self xs) = threshold self" "warp (update self xs) = warp self"
  "N (update self xs) = N self" "key_fn (update self xs) = key_fn self"
  unfolding update_def by (induction xs arbitrary: self) simp_all

theorem self_similarity_witness:
  "search ham_index ''ham'' None = Inr [(''ham'', 1)]"
proof -
  have v: "valid_config ham_index"
    by (simp add: ham_index_def valid_default_ngram)
  have i: "invar ham_index"
    unfolding ham_index_def by (intro invar_update invar_empty) (simp_all add: default_ngram_def)
  have m: "members ham_index = {''ham''}"
    by (simp add: ham_index_def members_update default_ngram_def)
  have k: "key ham_index ''ham'' = ''ham''"
    by (simp add: ham_index_def key_def default_ngram_def)
  have s: "splititem ham_index ''ham'' \<noteq> []"
    using length_splititem [of ham_index "''ham''"]
    by (auto simp: k ham_index_def pad_def default_ngram_def)
  have t: "(case None of Some t \<Rightarrow> t | None \<Rightarrow> threshold ham_index) \<le> 1"
    by (simp add: ham_index_def default_ngram_def)
  from self_similarity [OF v i m s t] show ?thesis
    by (simp add: k)
qed

lemma init_update:
  "init items thr wrp ky n pl pc =
     (case init [] thr wrp ky n pl pc of Inl e \<Rightarrow> Inl e | Inr base \<Rightarrow> Inr (update base items))"
  by (simp add: init_def raise_ValueError_def str_add_def Let_def update_def
      split: pyval.splits list.splits keyarg.splits option.splits)

lemma init_empty_Inr:
  assumes "init [] thr wrp ky n pl pc = Inr base"
  shows "valid_config base" "members base = {}" "length_tbl base = Map.empty"
    "grams base = Map.empty" "key_fn base = (case ky of KeyFun f \<Rightarrow> Some f | _ \<Rightarrow> None)"
  using assms
  by (auto simp: init_def raise_ValueError_def str_add_def Let_def update_def valid_config_def
      split: if_splits pyval.splits list.splits keyarg.splits option.splits)

text \<open>The value that \<open>compare\<close> returns for two strings, in terms of the shared count.\<close>

lemma compare_value:
  assumes base: "init [] thr wrp KeyNone n pl pc = Inr base"
  shows "compare (Some a) (Some b) thr wrp KeyNone n pl pc =
     (let t = capped_total (split_padded base b) (\<lambda>g. int (count_list (split_padded base a) g))
      in if t = 0 then Inr 0
         else
           (case similarity t
                   (int (length (pad base b)) + int (length (pad base a)) - 2 * N base - t + 2)
                   (warp base) of
              Inl e \<Rightarrow> Inl e
            | Inr sim \<Rightarrow> Inr (if threshold base \<le> sim then sim else 0)))"
proof -
  let ?self = "update base [a]"
  note b = init_empty_Inr [OF base]
  have i: "init [a] thr wrp KeyNone n pl pc = Inr ?self"
    by (subst init_update) (simp add: base)
  have inv: "invar ?self"
    by (intro invar_update invar_empty b)
  have mem: "members ?self = {a}"
    by (simp add: members_update b)
  have k: "key base s = s" for s
    by (simp add: key_def b)
  have sc: "shared_count ?self b a =
      capped_total (split_padded base b) (\<lambda>g. int (count_list (split_padded base a) g))"
    by (simp add: shared_count_invar [OF inv] mem splititem_def k)
  show ?thesis
    unfolding compare_def
    by (simp add: i search_single [OF inv mem] sc k allgrams_of_def Let_def
        split: sum.splits)
qed

text \<open>
  C10. Without a key function, \<open>compare(s1, s2)\<close> and \<open>compare(s2, s1)\<close> are equal for
  all strings and all configuration arguments (for arguments that the constructor
  rejects both raise the same error).
\<close>

theorem compare_symmetric:
  "compare (Some s1) (Some s2) thr wrp KeyNone n pl pc =
   compare (Some s2) (Some s1) thr wrp KeyNone n pl pc"
proof (cases "init [] thr wrp KeyNone n pl pc")
  case (Inl e)
  then have "init [s] thr wrp KeyNone n pl pc = Inl e" for s
    by (subst init_update) simp
  then show ?thesis
    by (simp add: compare_def)
next
  case (Inr base)
  have t: "capped_total (split_padded base s1) (\<lambda>g. int (count_list (split_padded base s2) g))
      = capped_total (split_padded base s2) (\<lambda>g. int (count_list (split_padded base s1) g))"
    by (rule capped_total_sym)
  have l: "int (length (pad base s1)) + int (length (pad base s2))
      = int (length (pad base s2)) + int (length (pad base s1))"
    by simp
  show ?thesis
    unfolding compare_value [OF Inr] t l ..
qed

lemma compare_examples:
  "compare (Some ''spa'') (Some ''spam'') 0 1 KeyNone 3 None (PyStr ''$'') = Inr (3 / 8)"
  "compare (Some ''ham'') (Some ''bam'') 0 1 KeyNone 3 None (PyStr ''$'') = Inr (1 / 4)"
  "compare (Some ''ham'') (Some ''ams'') 0 1 KeyNone 1 None (PyStr ''$'') = Inr (1 / 2)"
  by code_simp+

lemma glookup_delete:
  "G a = Some sub \<Longrightarrow>
   glookup (G(a \<mapsto> AList.delete x sub)) g m =
     (if g = a \<and> m = x then None else glookup G g m)"
  by (auto simp: glookup_def delete_conv')

lemma remove_loop_missing:
  "g \<in> set gs \<Longrightarrow> glookup G g x = None \<Longrightarrow> snd (remove_loop x gs G) = Some KeyError"
proof (induction gs arbitrary: G)
  case Nil
  then show ?case by simp
next
  case (Cons a gs)
  show ?case
  proof (cases "glookup G a x")
    case None
    then show ?thesis
      by (auto simp: glookup_def split: option.splits)
  next
    case (Some c)
    then obtain sub where sub: "G a = Some sub" "map_of sub x = Some c"
      by (auto simp: glookup_def split: option.splits)
    from Some Cons.prems have "g \<in> set gs"
      by auto
    moreover have "glookup (G(a \<mapsto> AList.delete x sub)) g x = None"
      using Cons.prems(2) by (simp add: glookup_delete [of G a sub, OF sub(1)])
    ultimately have "snd (remove_loop x gs (G(a \<mapsto> AList.delete x sub))) = Some KeyError"
      by (rule Cons.IH)
    then show ?thesis
      by (simp add: sub)
  qed
qed

lemma remove_loop_repeated:
  "\<not> distinct gs \<Longrightarrow> snd (remove_loop x gs G) = Some KeyError"
proof (induction gs arbitrary: G)
  case Nil
  then show ?case by simp
next
  case (Cons a gs)
  show ?case
  proof (cases "glookup G a x")
    case None
    then show ?thesis
      by (auto simp: glookup_def split: option.splits)
  next
    case (Some c)
    then obtain sub where sub: "G a = Some sub" "map_of sub x = Some c"
      by (auto simp: glookup_def split: option.splits)
    have gone: "glookup (G(a \<mapsto> AList.delete x sub)) a x = None"
      by (simp add: glookup_delete [of G a sub, OF sub(1)])
    have "snd (remove_loop x gs (G(a \<mapsto> AList.delete x sub))) = Some KeyError"
    proof (cases "a \<in> set gs")
      case True
      then show ?thesis
        using gone by (rule remove_loop_missing)
    next
      case False
      with Cons.prems have "\<not> distinct gs"
        by simp
      then show ?thesis
        by (rule Cons.IH)
    qed
    then show ?thesis
      by (simp add: sub)
  qed
qed

lemma remove_loop_distinct_ok:
  assumes "distinct gs" "\<And>g. g \<in> set gs \<Longrightarrow> glookup G g x \<noteq> None"
  shows "snd (remove_loop x gs G) = None
     \<and> (\<forall>g m. glookup (fst (remove_loop x gs G)) g m =
           (if m = x \<and> g \<in> set gs then None else glookup G g m))"
  using assms
proof (induction gs arbitrary: G)
  case Nil
  show ?case by simp
next
  case (Cons a gs)
  from Cons.prems(2) [of a] obtain sub c where sub: "G a = Some sub" "map_of sub x = Some c"
    by (auto simp: glookup_def split: option.splits)
  let ?G = "G(a \<mapsto> AList.delete x sub)"
  from Cons.prems(1) have d: "distinct gs" and na: "a \<notin> set gs"
    by simp_all
  have "glookup ?G g x \<noteq> None" if "g \<in> set gs" for g
    using that na Cons.prems(2) [of g] by (auto simp: glookup_delete [of G a sub, OF sub(1)])
  from Cons.IH [OF d this]
  have r1: "snd (remove_loop x gs ?G) = None"
    and r2: "\<And>g m. glookup (fst (remove_loop x gs ?G)) g m =
           (if m = x \<and> g \<in> set gs then None else glookup ?G g m)"
    by blast+
  have step: "remove_loop x (a # gs) G = remove_loop x gs ?G"
    by (simp add: sub)
  show ?case
    unfolding step by (simp add: r1 r2 glookup_delete [of G a sub, OF sub(1)])
qed

lemma remove_after_add:
  assumes inv: "invar self" and new: "x \<notin> members self"
  shows "remove (add self x) x =
     (let self2 = (add self x)\<lparr>members := members self, length_tbl := length_tbl self\<rparr>;
          r = remove_loop x (splititem self x) (grams (add self x))
      in (self2\<lparr>grams := fst r\<rparr>, snd r))"
proof -
  have none: "length_tbl self x = None"
    using inv new by (simp add: invar_def)
  have m: "members self - {x} = members self"
    using new by auto
  have l: "(length_tbl (add self x))(x := None) = length_tbl self"
    using new none by (auto simp: add_def Let_def fun_eq_iff)
  have lx: "length_tbl (add self x) x = Some (int (length (pad self (key self x))))"
    using new by (simp add: add_def Let_def)
  have s: "splititem ((add self x)\<lparr>members := A, length_tbl := B\<rparr>) x = splititem self x"
    for A B
    by (simp add: splititem_def split_padded_def split_raw_def pad_def key_def add_def Let_def)
  show ?thesis
    by (simp add: remove_def members_add m l lx s Let_def split: prod.splits)
qed

text \<open>
  The round trip holds exactly for the items whose padded key has no repeated n-gram:
  then \<open>remove\<close> returns normally and the three tables are as before the \<open>add\<close>
  (a sub-dictionary that \<open>add\<close> created stays, empty).
\<close>

lemma remove_add_roundtrip:
  assumes inv: "invar self" and new: "x \<notin> members self" and d: "distinct (splititem self x)"
  shows "snd (remove (add self x) x) = None"
    and "members (fst (remove (add self x) x)) = members self"
    and "length_tbl (fst (remove (add self x) x)) = length_tbl self"
    and "entry (fst (remove (add self x) x)) g m = entry self g m"
proof -
  let ?gs = "splititem self x"
  have g: "grams (add self x) = fold (add_ngram x) ?gs (grams self)"
    using new by (simp add: add_def Let_def splititem_def split_padded_def)
  have old: "glookup (grams self) g x = None" for g
    using inv new by (simp add: invar_def entry_glookup [symmetric])
  have present: "glookup (grams (add self x)) g x \<noteq> None" if "g \<in> set ?gs" for g
    using that by (simp add: g fold_add_ngram_lookup)
  note r = remove_loop_distinct_ok [OF d present]
  note ra = remove_after_add [OF inv new]
  show "snd (remove (add self x) x) = None"
    using r by (simp add: ra Let_def)
  show "members (fst (remove (add self x) x)) = members self"
    by (simp add: ra Let_def)
  show "length_tbl (fst (remove (add self x) x)) = length_tbl self"
    by (simp add: ra Let_def)
  have "glookup (fst (remove_loop x ?gs (grams (add self x)))) g m = glookup (grams self) g m"
    using r old [of g] by (simp add: g fold_add_ngram_lookup)
  then show "entry (fst (remove (add self x) x)) g m = entry self g m"
    by (simp add: ra Let_def entry_glookup)
qed

lemma remove_add_repeated:
  assumes inv: "invar self" and new: "x \<notin> members self" and d: "\<not> distinct (splititem self x)"
  shows "snd (remove (add self x) x) = Some KeyError"
  using remove_loop_repeated [OF d] by (simp add: remove_after_add [OF inv new] Let_def)

text \<open>
  Whatever the tables hold, a result list that \<open>search\<close> returns is ranked and holds
  exactly the candidates that reach the threshold.
\<close>

lemma search_result_any_state:
  assumes "search self query thr_arg = Inr res"
  shows "sorted (rev (map snd res))"
    and "(m, sim) \<in> set res \<longleftrightarrow>
          (\<exists>same len. (m, same) \<in> set (items_sharing_ngrams self query)
             \<and> length_tbl self m = Some len
             \<and> similarity same (allgrams_of self query len same) (warp self) = Inr sim
             \<and> (case thr_arg of Some t \<Rightarrow> t | None \<Rightarrow> threshold self) \<le> sim)"
proof -
  let ?thr = "case thr_arg of Some t \<Rightarrow> t | None \<Rightarrow> threshold self"
  from assms obtain results
    where r: "search_loop self query ?thr (items_sharing_ngrams self query) [] = Inr results"
      and s: "res = sort_key (\<lambda>x. - snd x) results"
    by (auto simp: search_def Let_def split: sum.splits)
  show "sorted (rev (map snd res))"
    unfolding s by (rule sorted_desc_sort_key)
  show "(m, sim) \<in> set res \<longleftrightarrow>
          (\<exists>same len. (m, same) \<in> set (items_sharing_ngrams self query)
             \<and> length_tbl self m = Some len
             \<and> similarity same (allgrams_of self query len same) (warp self) = Inr sim
             \<and> ?thr \<le> sim)"
    unfolding s using search_loop_set [OF r] by simp
qed

end
